theory Spec2Isabelle
  imports Main
begin

section \<open>Multi-field cursor pagination (drf\_multifield\_cursor/pagination.py)\<close>

text \<open>
  A shallow embedding of \<^verbatim>\<open>pagination.py\<close>. A Python \<^verbatim>\<open>str\<close> is modelled
  by the list of bytes of its UTF-8 encoding (\<^typ>\<open>string\<close>), a tuple or list of
  strings by a \<^typ>\<open>string list\<close>, Python's unbounded integers by \<^typ>\<open>int\<close>.
  Every exception the module can raise is a value of \<open>py_error\<close>; a function that can
  raise returns \<open>py_error + 'a\<close> with \<open>Inl\<close> for the exception.
\<close>

datatype py_error =
    AssertionError
  | IndexError
  | KeyError
  | AttributeError
  | TypeError
  | ValueError
  | UnicodeEncodeError
  | UnicodeDecodeError
  | BinasciiError
  | NotFound

subsection \<open>String helpers of the Python runtime\<close>

text \<open>\<^verbatim>\<open>x.startswith("-")\<close> and \<^verbatim>\<open>x.lstrip("-")\<close>.\<close>

fun startswith_dash :: "string \<Rightarrow> bool" where
  "startswith_dash [] = False"
| "startswith_dash (c # cs) = (c = CHR ''-'')"

definition lstrip_dash :: "string \<Rightarrow> string" where
  "lstrip_dash x = dropWhile (\<lambda>c. c = CHR ''-'') x"

text \<open>\<^verbatim>\<open>p in s\<close> for two strings: \<open>p\<close> occurs in \<open>s\<close> as a contiguous substring.\<close>

fun starts_with :: "string \<Rightarrow> string \<Rightarrow> bool" where
  "starts_with [] s = True"
| "starts_with (p # ps) [] = False"
| "starts_with (p # ps) (c # cs) = (p = c \<and> starts_with ps cs)"

fun str_contains :: "string \<Rightarrow> string \<Rightarrow> bool" where
  "str_contains p [] = starts_with p []"
| "str_contains p (c # cs) = (starts_with p (c # cs) \<or> str_contains p cs)"

subsection \<open>\<^verbatim>\<open>_reverse_ordering\<close>\<close>

text \<open>
  \<^verbatim>\<open>def invert(x): return x[1:] if x.startswith("-") else "-" + x\<close>
  and \<^verbatim>\<open>tuple([invert(item) for item in ordering_tuple])\<close>.
\<close>

definition invert :: "string \<Rightarrow> string" where
  "invert x = (if startswith_dash x then tl x else CHR ''-'' # x)"

definition reverse_ordering :: "string list \<Rightarrow> string list" where
  "reverse_ordering ordering_tuple = map invert ordering_tuple"

subsection \<open>\<^verbatim>\<open>get_ordering\<close>\<close>

text \<open>
  The ordering a caller declares is \<^verbatim>\<open>None\<close>, a string, a list or tuple of strings, or
  a value of another type. \<open>OtherDecl\<close> stands for the last; it fails the
  \<^verbatim>\<open>isinstance(ordering, (str, list, tuple))\<close> assertion (a value that is not even a
  container raises \<^verbatim>\<open>TypeError\<close> one line earlier, at the membership test of the
  class-attribute branch; both are failures of the call and the model reports the
  assertion).
\<close>

datatype ordering_decl =
    NoneDecl
  | StrDecl string
  | SeqDecl "string list"
  | OtherDecl

text \<open>
  \<^verbatim>\<open>"__" in ordering\<close>: a substring test when \<open>ordering\<close> is a string, an element
  membership test when it is a list or a tuple.
\<close>

fun dunder_in :: "ordering_decl \<Rightarrow> bool" where
  "dunder_in (StrDecl s) = str_contains ''__'' s"
| "dunder_in (SeqDecl xs) = (''__'' \<in> set xs)"
| "dunder_in NoneDecl = False"
| "dunder_in OtherDecl = False"

text \<open>
  The lines after the two branches: the \<^verbatim>\<open>isinstance\<close> assertion, the wrapping of a
  string into a one-element tuple, and the unique key appended when none of
  \<^verbatim>\<open>{"-" + pk_name, pk_name, "pk", "-pk"}\<close> is an element of the ordering.
\<close>

definition has_unique_key :: "string \<Rightarrow> string list \<Rightarrow> bool" where
  "has_unique_key pk_name ordr =
     (\<exists>x \<in> set ordr. x \<in> {CHR ''-'' # pk_name, pk_name, ''pk'', ''-pk''})"

fun ordering_tuple_of :: "ordering_decl \<Rightarrow> py_error + string list" where
  "ordering_tuple_of (StrDecl s) = Inr [s]"
| "ordering_tuple_of (SeqDecl xs) = Inr xs"
| "ordering_tuple_of NoneDecl = Inl AssertionError"
| "ordering_tuple_of OtherDecl = Inl AssertionError"

definition include_unique_key :: "string \<Rightarrow> string list \<Rightarrow> string list" where
  "include_unique_key pk_name ordr =
     (if \<not> has_unique_key pk_name ordr then ordr @ [pk_name] else ordr)"

text \<open>
  \<open>get_ordering filter_ordering self_ordering pk_name\<close>: \<open>filter_ordering\<close> is
  \<open>Some d\<close> when the view has a filter backend with a \<^verbatim>\<open>get_ordering\<close> method, \<open>d\<close>
  being what that method returns; \<open>self_ordering\<close> is the \<^verbatim>\<open>ordering\<close> attribute of
  the pagination class; \<open>pk_name\<close> is \<^verbatim>\<open>queryset.model._meta.pk.name\<close>.
\<close>

definition get_ordering ::
  "ordering_decl option \<Rightarrow> ordering_decl \<Rightarrow> string \<Rightarrow> py_error + string list" where
  "get_ordering filter_ordering self_ordering pk_name =
     (case filter_ordering of
        Some ordr \<Rightarrow>
          (if ordr = NoneDecl then Inl AssertionError
           else (case ordering_tuple_of ordr of
                   Inl e \<Rightarrow> Inl e
                 | Inr t \<Rightarrow> Inr (include_unique_key pk_name t)))
      | None \<Rightarrow>
          (if self_ordering = NoneDecl then Inl AssertionError
           else if dunder_in self_ordering then Inl AssertionError
           else (case ordering_tuple_of self_ordering of
                   Inl e \<Rightarrow> Inl e
                 | Inr t \<Rightarrow> Inr (include_unique_key pk_name t))))"

subsection \<open>Filter expressions (Django \<^verbatim>\<open>Q\<close> objects) and their meaning on a row\<close>

text \<open>
  The filters the paginator builds: \<^verbatim>\<open>Q(**{attr: v})\<close>, \<^verbatim>\<open>Q(**{attr + "__lt": v})\<close>,
  \<^verbatim>\<open>Q(**{attr + "__gt": v})\<close>, their combinations with \<^verbatim>\<open>&\<close> and \<^verbatim>\<open>|\<close>, and the two
  row-value comparisons \<^verbatim>\<open>_cursor_tuple__gt\<close> and \<^verbatim>\<open>_cursor_tuple__lt\<close> between the tuple of
  columns \<^verbatim>\<open>(f1, ..., fn)\<close> and the tuple of values.
\<close>

datatype 'v q =
    Q_exact string 'v
  | Q_lt string 'v
  | Q_gt string 'v
  | Q_and "'v q" "'v q"
  | Q_or "'v q" "'v q"
  | Tuple_gt "string list" "'v list"
  | Tuple_lt "string list" "'v list"

text \<open>
  A row gives a value to each column it has. The values a position carries and the values
  of the columns are taken from one linearly ordered type \<open>'v\<close>: the coercion of a
  position's JSON string to the column's type (Django's lookup preparation in the
  disjunctive branch, the explicit \<^verbatim>\<open>Cast(Value(val), output_field=model_field)\<close> in the
  tuple branch) is the database's and is not modelled. A column the row lacks (SQL
  \<^verbatim>\<open>NULL\<close>) satisfies no comparison.
\<close>

type_synonym 'v row = "string \<rightharpoonup> 'v"

text \<open>
  The database's row-value comparison: lexicographic, the first column that differs
  decides. A comparison whose two sides differ in length is an error of the database; the
  function is \<open>False\<close> once one side runs out.
\<close>

fun tuple_cmp :: "('v \<Rightarrow> 'v \<Rightarrow> bool) \<Rightarrow> 'v row \<Rightarrow> string list \<Rightarrow> 'v list \<Rightarrow> bool" where
  "tuple_cmp lt r (f # fs) (v # vs) =
     (case r f of
        None \<Rightarrow> False
      | Some x \<Rightarrow> lt x v \<or> (x = v \<and> tuple_cmp lt r fs vs))"
| "tuple_cmp lt r [] vs = False"
| "tuple_cmp lt r (f # fs) [] = False"

fun q_holds :: "('v::linorder) row \<Rightarrow> 'v q \<Rightarrow> bool" where
  "q_holds r (Q_exact f v) = (r f = Some v)"
| "q_holds r (Q_lt f v) = (case r f of None \<Rightarrow> False | Some x \<Rightarrow> x < v)"
| "q_holds r (Q_gt f v) = (case r f of None \<Rightarrow> False | Some x \<Rightarrow> v < x)"
| "q_holds r (Q_and a b) = (q_holds r a \<and> q_holds r b)"
| "q_holds r (Q_or a b) = (q_holds r a \<or> q_holds r b)"
| "q_holds r (Tuple_gt fs vs) = tuple_cmp (\<lambda>x v. v < x) r fs vs"
| "q_holds r (Tuple_lt fs vs) = tuple_cmp (\<lambda>x v. x < v) r fs vs"

subsection \<open>Python containers: \<^verbatim>\<open>d[k]\<close>, \<^verbatim>\<open>functools.reduce\<close>, a comprehension that can raise\<close>

definition dict_get :: "('k \<rightharpoonup> 'a) \<Rightarrow> 'k \<Rightarrow> py_error + 'a" where
  "dict_get d k = (case d k of None \<Rightarrow> Inl KeyError | Some x \<Rightarrow> Inr x)"

text \<open>\<^verbatim>\<open>reduce(f, xs)\<close> without an initial value: \<^verbatim>\<open>TypeError\<close> on an empty list, else
  \<^verbatim>\<open>f(...f(f(x0, x1), x2)..., xn)\<close>.\<close>

fun reduce :: "('a \<Rightarrow> 'a \<Rightarrow> 'a) \<Rightarrow> 'a list \<Rightarrow> py_error + 'a" where
  "reduce f [] = Inl TypeError"
| "reduce f (x # xs) = Inr (foldl f x xs)"

text \<open>\<^verbatim>\<open>[g(x) for x in xs]\<close> where \<open>g\<close> can raise: the first exception ends the loop.\<close>

fun map_raising :: "('a \<Rightarrow> py_error + 'b) \<Rightarrow> 'a list \<Rightarrow> py_error + 'b list" where
  "map_raising g [] = Inr []"
| "map_raising g (x # xs) =
     (case g x of
        Inl e \<Rightarrow> Inl e
      | Inr y \<Rightarrow> (case map_raising g xs of Inl e \<Rightarrow> Inl e | Inr ys \<Rightarrow> Inr (y # ys)))"

subsection \<open>The boundary filter of \<^verbatim>\<open>paginate_queryset\<close>\<close>

text \<open>\<^verbatim>\<open>_all_ascending\<close>, \<^verbatim>\<open>_all_descending\<close>, \<^verbatim>\<open>_uniform_ordering\<close>,
  \<^verbatim>\<open>should_use_tuple_comparison\<close>.\<close>

definition all_ascending :: "string list \<Rightarrow> bool" where
  "all_ascending ordr = (\<not> list_ex (\<lambda>d. d) (map startswith_dash ordr))"

definition all_descending :: "string list \<Rightarrow> bool" where
  "all_descending ordr = list_all (\<lambda>d. d) (map startswith_dash ordr)"

definition uniform_ordering :: "string list \<Rightarrow> bool" where
  "uniform_ordering ordr = (all_ascending ordr \<or> all_descending ordr)"

definition should_use_tuple_comparison :: "bool \<Rightarrow> string list \<Rightarrow> bool" where
  "should_use_tuple_comparison use_tuple_comparison ordr =
     (if \<not> use_tuple_comparison then False
      else if \<not> uniform_ordering ordr then False
      else True)"

text \<open>
  The tuple branch (lines 96 to 124): the columns are the specifiers without their
  dashes, the values are those of \<^verbatim>\<open>zip(current_position_list, field_names)\<close>, and the
  comparison is \<^verbatim>\<open>__gt\<close> when the traversal goes up the columns.
\<close>

definition tuple_filter :: "bool \<Rightarrow> string list \<Rightarrow> 'v list \<Rightarrow> 'v q" where
  "tuple_filter reverse ordr current_position_list =
     (let field_names = map lstrip_dash ordr;
          cleaned_values = map fst (zip current_position_list field_names);
          is_moving_forward = \<not> reverse;
          should_use_gt = ((all_ascending ordr \<and> is_moving_forward)
                           \<or> (all_descending ordr \<and> \<not> is_moving_forward))
      in if should_use_gt then Tuple_gt field_names cleaned_values
         else Tuple_lt field_names cleaned_values)"

text \<open>
  The disjunctive branch (lines 126 to 159). The first loop fills the two dictionaries
  \<^verbatim>\<open>q_objects_equals\<close> and \<^verbatim>\<open>q_objects_compare\<close>, keyed by the specifier; a later entry
  for the same specifier overwrites an earlier one.
\<close>

fun q_objects ::
  "bool \<Rightarrow> (string \<times> 'v) list \<Rightarrow> (string \<rightharpoonup> 'v q) \<times> (string \<rightharpoonup> 'v q)
     \<Rightarrow> (string \<rightharpoonup> 'v q) \<times> (string \<rightharpoonup> 'v q)" where
  "q_objects reverse [] (q_objects_equals, q_objects_compare) =
     (q_objects_equals, q_objects_compare)"
| "q_objects reverse ((order, position) # rest) (q_objects_equals, q_objects_compare) =
     (let is_reversed = startswith_dash order;
          order_attr = lstrip_dash order
      in q_objects reverse rest
           (q_objects_equals(order \<mapsto> Q_exact order_attr position),
            (if reverse \<noteq> is_reversed
             then q_objects_compare(order \<mapsto> Q_lt order_attr position)
             else q_objects_compare(order \<mapsto> Q_gt order_attr position))))"

text \<open>
  One round of the second loop, for index \<open>i\<close>: \<^verbatim>\<open>equals = list(ordering[: i + 2])\<close>, the
  last element is popped and looked up in \<^verbatim>\<open>q_objects_compare\<close>, the others are looked up
  in \<^verbatim>\<open>q_objects_equals\<close>, and the conjunction of all of them is the round's filter.
\<close>

definition sub_filter ::
  "(string \<rightharpoonup> 'v q) \<Rightarrow> (string \<rightharpoonup> 'v q) \<Rightarrow> string list \<Rightarrow> nat \<Rightarrow> py_error + 'v q" where
  "sub_filter q_objects_equals q_objects_compare ordr i =
     (let equals = take (i + 2) ordr
      in if equals = [] then Inl IndexError
         else (case dict_get q_objects_compare (last equals) of
                 Inl e \<Rightarrow> Inl e
               | Inr greater_than_q \<Rightarrow>
                   (case map_raising (dict_get q_objects_equals) (butlast equals) of
                      Inl e \<Rightarrow> Inl e
                    | Inr sub_filters \<Rightarrow> reduce Q_and (sub_filters @ [greater_than_q]))))"

definition disjunctive_filter :: "bool \<Rightarrow> string list \<Rightarrow> 'v list \<Rightarrow> py_error + 'v q" where
  "disjunctive_filter reverse ordr current_position_list =
     (case q_objects reverse (zip ordr current_position_list) (Map.empty, Map.empty) of
        (q_objects_equals, q_objects_compare) \<Rightarrow>
          (case ordr of
             [] \<Rightarrow> Inl IndexError
           | first # _ \<Rightarrow>
               (case dict_get q_objects_compare first of
                  Inl e \<Rightarrow> Inl e
                | Inr first_q \<Rightarrow>
                    (case map_raising (sub_filter q_objects_equals q_objects_compare ordr)
                            [0 ..< length ordr] of
                       Inl e \<Rightarrow> Inl e
                     | Inr rounds \<Rightarrow> reduce Q_or (first_q # rounds)))))"

definition boundary_filter ::
  "bool \<Rightarrow> bool \<Rightarrow> string list \<Rightarrow> 'v list \<Rightarrow> py_error + 'v q" where
  "boundary_filter use_tuple_comparison reverse ordr current_position_list =
     (if should_use_tuple_comparison use_tuple_comparison ordr
      then Inr (tuple_filter reverse ordr current_position_list)
      else disjunctive_filter reverse ordr current_position_list)"

subsection \<open>The lexicographic expansion the specification states\<close>

text \<open>
  Written from the specification, to be compared with the filter the code builds: the
  disjunction over \<open>i\<close> of \<open>f1 = v1 \<and> ... \<and> f(i-1) = v(i-1) \<and> fi CMP(i) vi\<close>, where
  \<open>CMP(i)\<close> is \<open>>\<close> exactly when (field \<open>i\<close> descending) XOR (traversal reversed) is
  false, and \<open><\<close> otherwise. Indices run from 0.
\<close>

definition spec_field_eq :: "('v::linorder) row \<Rightarrow> string \<Rightarrow> 'v \<Rightarrow> bool" where
  "spec_field_eq r spec v = (r (lstrip_dash spec) = Some v)"

definition spec_field_cmp :: "bool \<Rightarrow> ('v::linorder) row \<Rightarrow> string \<Rightarrow> 'v \<Rightarrow> bool" where
  "spec_field_cmp reversed r spec v =
     (case r (lstrip_dash spec) of
        None \<Rightarrow> False
      | Some x \<Rightarrow> if startswith_dash spec \<noteq> reversed then x < v else v < x)"

definition spec_expansion ::
  "bool \<Rightarrow> string list \<Rightarrow> ('v::linorder) list \<Rightarrow> 'v row \<Rightarrow> bool" where
  "spec_expansion reversed ordr vs r =
     list_ex (\<lambda>i. list_all (\<lambda>j. spec_field_eq r (ordr ! j) (vs ! j)) [0 ..< i]
                \<and> spec_field_cmp reversed r (ordr ! i) (vs ! i))
             [0 ..< length ordr]"

subsection \<open>Bytes, ASCII and UTF-8\<close>

text \<open>
  \<^verbatim>\<open>s.encode("ascii")\<close> raises \<^verbatim>\<open>UnicodeEncodeError\<close> and \<^verbatim>\<open>b.decode("ascii")\<close> raises
  \<^verbatim>\<open>UnicodeDecodeError\<close> (both subclasses of \<^verbatim>\<open>ValueError\<close>) unless every byte is below 128.
\<close>

definition is_ascii :: "char \<Rightarrow> bool" where
  "is_ascii c = ((of_char c :: nat) < 128)"

definition encode_ascii :: "string \<Rightarrow> py_error + string" where
  "encode_ascii s = (if list_all is_ascii s then Inr s else Inl UnicodeEncodeError)"

definition decode_ascii :: "string \<Rightarrow> py_error + string" where
  "decode_ascii b = (if list_all is_ascii b then Inr b else Inl UnicodeDecodeError)"

text \<open>
  \<^verbatim>\<open>bytes.decode("utf-8", "replace")\<close>, as CPython's decoder does it. \<open>utf8_head\<close> looks at
  the bytes that remain and returns how many of them the decoder takes in its next step
  and whether they are one well-formed character. An ill-formed step is an invalid start
  byte (one byte), a lead byte followed by the well-formed part of its continuation (one
  to three bytes), or a character cut off by the end of the data (all the bytes that
  remain); it is replaced by U+FFFD, whose UTF-8 encoding is \<^verbatim>\<open>EF BF BD\<close>.
\<close>

definition is_cont :: "char \<Rightarrow> bool" where
  "is_cont c = (128 \<le> (of_char c :: nat) \<and> (of_char c :: nat) \<le> 191)"

definition bad_second3 :: "char \<Rightarrow> char \<Rightarrow> bool" where
  "bad_second3 ch ch2 =
     (\<not> is_cont ch2
      \<or> (if (of_char ch2 :: nat) < 160 then (of_char ch :: nat) = 224
          else (of_char ch :: nat) = 237))"

definition bad_second4 :: "char \<Rightarrow> char \<Rightarrow> bool" where
  "bad_second4 ch ch2 =
     (\<not> is_cont ch2
      \<or> (if (of_char ch2 :: nat) < 144 then (of_char ch :: nat) = 240
          else (of_char ch :: nat) = 244))"

fun utf8_head :: "char \<Rightarrow> string \<Rightarrow> nat \<times> bool" where
  "utf8_head ch rest =
     (if (of_char ch :: nat) < 128 then (1, True)
      else if (of_char ch :: nat) < 194 then (1, False)
      else if (of_char ch :: nat) < 224 then
        (case rest of
           [] \<Rightarrow> (1, False)
         | ch2 # _ \<Rightarrow> if \<not> is_cont ch2 then (1, False) else (2, True))
      else if (of_char ch :: nat) < 240 then
        (case rest of
           [] \<Rightarrow> (1, False)
         | [ch2] \<Rightarrow> if bad_second3 ch ch2 then (1, False) else (2, False)
         | ch2 # ch3 # _ \<Rightarrow>
             if bad_second3 ch ch2 then (1, False)
             else if \<not> is_cont ch3 then (2, False)
             else (3, True))
      else if (of_char ch :: nat) < 245 then
        (case rest of
           [] \<Rightarrow> (1, False)
         | [ch2] \<Rightarrow> if bad_second4 ch ch2 then (1, False) else (2, False)
         | [ch2, ch3] \<Rightarrow>
             if bad_second4 ch ch2 then (1, False)
             else if \<not> is_cont ch3 then (2, False)
             else (3, False)
         | ch2 # ch3 # ch4 # _ \<Rightarrow>
             if bad_second4 ch ch2 then (1, False)
             else if \<not> is_cont ch3 then (2, False)
             else if \<not> is_cont ch4 then (3, False)
             else (4, True))
      else (1, False))"

definition replacement_character :: string where
  "replacement_character = [char_of (239 :: nat), char_of (191 :: nat), char_of (189 :: nat)]"

fun utf8_replace :: "string \<Rightarrow> string" where
  "utf8_replace [] = []"
| "utf8_replace (ch # rest) =
     (case utf8_head ch rest of
        (n, ok) \<Rightarrow>
          (if ok then ch # take (n - 1) rest else replacement_character)
          @ utf8_replace (drop (n - 1) rest))"


subsection \<open>\<^verbatim>\<open>base64.b64encode\<close> and \<^verbatim>\<open>base64.b64decode\<close>\<close>

definition table_b2a_base64 :: string where
  "table_b2a_base64 = ''ABCDEFGHIJKLMNOPQRSTUVWXYZabcdefghijklmnopqrstuvwxyz0123456789+/''"

fun index_of :: "'a \<Rightarrow> 'a list \<Rightarrow> nat option" where
  "index_of c [] = None"
| "index_of c (x # xs) =
     (if c = x then Some 0
      else (case index_of c xs of None \<Rightarrow> None | Some i \<Rightarrow> Some (Suc i)))"

definition table_a2b_base64 :: "char \<Rightarrow> nat option" where
  "table_a2b_base64 c = index_of c table_b2a_base64"



text \<open>
  \<^verbatim>\<open>binascii.a2b_base64\<close> in its default, non-strict mode, which is what
  \<^verbatim>\<open>b64decode(s)\<close> calls: a character outside the alphabet is skipped; \<^verbatim>\<open>=\<close> ends the
  input once the padding completes a quad that has at least two characters, and is skipped
  otherwise; at the end of the input an unfinished quad is an error
  (\<^verbatim>\<open>binascii.Error\<close>, a subclass of \<^verbatim>\<open>ValueError\<close>). \<open>quad_pos\<close>, \<open>leftchar\<close> and \<open>pads\<close>
  are the C function's variables; the bytes are returned as they are produced.
\<close>

definition emit :: "nat \<Rightarrow> py_error + string \<Rightarrow> py_error + string" where
  "emit byte r = (case r of Inl e \<Rightarrow> Inl e | Inr bs \<Rightarrow> Inr (char_of byte # bs))"

fun a2b_base64 :: "string \<Rightarrow> nat \<Rightarrow> nat \<Rightarrow> nat \<Rightarrow> py_error + string" where
  "a2b_base64 [] quad_pos leftchar pads =
     (if quad_pos \<noteq> 0 then Inl BinasciiError else Inr [])"
| "a2b_base64 (c # cs) quad_pos leftchar pads =
     (if c = CHR ''='' then
        (if quad_pos \<ge> 2 \<and> quad_pos + (pads + 1) \<ge> 4 then Inr []
         else a2b_base64 cs quad_pos leftchar (if quad_pos \<ge> 2 then pads + 1 else pads))
      else
        (case table_a2b_base64 c of
           None \<Rightarrow> a2b_base64 cs quad_pos leftchar pads
         | Some this_ch \<Rightarrow>
             (if quad_pos = 0 then a2b_base64 cs 1 this_ch 0
              else if quad_pos = 1 then
                emit (leftchar * 4 + this_ch div 16) (a2b_base64 cs 2 (this_ch mod 16) 0)
              else if quad_pos = 2 then
                emit (leftchar * 16 + this_ch div 4) (a2b_base64 cs 3 (this_ch mod 4) 0)
              else
                emit (leftchar * 64 + this_ch) (a2b_base64 cs 0 0 0))))"

definition b64decode :: "string \<Rightarrow> py_error + string" where
  "b64decode s = a2b_base64 s 0 0 0"

subsection \<open>\<^verbatim>\<open>urllib.parse\<close>: \<^verbatim>\<open>urlencode\<close> and \<^verbatim>\<open>parse_qs\<close>\<close>





definition str_replace :: "char \<Rightarrow> char \<Rightarrow> string \<Rightarrow> string" where
  "str_replace old new s = map (\<lambda>c. if c = old then new else c) s"


fun join :: "string \<Rightarrow> string list \<Rightarrow> string" where
  "join sep [] = []"
| "join sep [x] = x"
| "join sep (x # y # ys) = x @ sep @ join sep (y # ys)"


definition hex_val :: "char \<Rightarrow> nat option" where
  "hex_val c =
     (case index_of c ''0123456789ABCDEF'' of
        Some d \<Rightarrow> Some d
      | None \<Rightarrow> (case index_of c ''abcdef'' of Some d \<Rightarrow> Some (d + 10) | None \<Rightarrow> None))"

text \<open>
  \<^verbatim>\<open>unquote_to_bytes\<close>: \<^verbatim>\<open>%\<close> followed by two hexadecimal digits is the byte they
  denote; any other \<^verbatim>\<open>%\<close> stays as it is.
\<close>

fun unquote_to_bytes :: "string \<Rightarrow> string" where
  "unquote_to_bytes [] = []"
| "unquote_to_bytes (c # cs) =
     (if c = CHR ''%'' then
        (case cs of
           a # b # rest \<Rightarrow>
             (case hex_val a of
                None \<Rightarrow> c # unquote_to_bytes cs
              | Some x \<Rightarrow>
                  (case hex_val b of
                     None \<Rightarrow> c # unquote_to_bytes cs
                   | Some y \<Rightarrow> char_of (16 * x + y) # unquote_to_bytes rest))
         | _ \<Rightarrow> c # unquote_to_bytes cs)
      else c # unquote_to_bytes cs)"

text \<open>
  \<^verbatim>\<open>unquote(string)\<close> with the defaults \<^verbatim>\<open>encoding='utf-8', errors='replace'\<close>, on an
  ASCII string (the query string has passed \<^verbatim>\<open>decode("ascii")\<close>).
\<close>

definition unquote :: "string \<Rightarrow> string" where
  "unquote s = (if CHR ''%'' \<notin> set s then s else utf8_replace (unquote_to_bytes s))"

text \<open>\<^verbatim>\<open>s.split(sep)\<close> for a one-character separator, and \<^verbatim>\<open>s.split('=', 1)\<close>.\<close>

fun split_on :: "char \<Rightarrow> string \<Rightarrow> string list" where
  "split_on sep [] = [[]]"
| "split_on sep (c # cs) =
     (if c = sep then [] # split_on sep cs
      else (case split_on sep cs of
              [] \<Rightarrow> [[c]]
            | x # xs \<Rightarrow> (c # x) # xs))"

definition split_once :: "char \<Rightarrow> string \<Rightarrow> string list" where
  "split_once sep s =
     (if sep \<in> set s
      then [takeWhile (\<lambda>c. c \<noteq> sep) s, tl (dropWhile (\<lambda>c. c \<noteq> sep) s)]
      else [s])"

text \<open>
  \<^verbatim>\<open>parse_qsl(qs, keep_blank_values=True)\<close> with the separator \<^verbatim>\<open>&\<close>: empty fields are
  skipped, a field without \<^verbatim>\<open>=\<close> has the empty value.
\<close>

definition unquote_plus :: "string \<Rightarrow> string" where
  "unquote_plus s = unquote (str_replace (CHR ''+'') (CHR 0x20) s)"

definition parse_field :: "string \<Rightarrow> (string \<times> string) list" where
  "parse_field name_value =
     (if name_value = [] then []
      else (case split_once (CHR ''='') name_value of
              [name, val] \<Rightarrow> [(unquote_plus name, unquote_plus val)]
            | _ \<Rightarrow> [(unquote_plus name_value, unquote_plus [])]))"

definition parse_qsl :: "string \<Rightarrow> (string \<times> string) list" where
  "parse_qsl qs = (if qs = [] then [] else concat (map parse_field (split_on (CHR ''&'') qs)))"

text \<open>\<^verbatim>\<open>parse_qs\<close>: the dictionary from each name to the list of its values, in order.\<close>

fun collect ::
  "(string \<times> string) list \<Rightarrow> (string \<rightharpoonup> string list) \<Rightarrow> (string \<rightharpoonup> string list)" where
  "collect [] parsed_result = parsed_result"
| "collect ((name, val) # pairs) parsed_result =
     collect pairs
       (case parsed_result name of
          Some vals \<Rightarrow> parsed_result(name \<mapsto> vals @ [val])
        | None \<Rightarrow> parsed_result(name \<mapsto> [val]))"

definition parse_qs :: "string \<Rightarrow> (string \<rightharpoonup> string list)" where
  "parse_qs qs = collect (parse_qsl qs) Map.empty"

subsection \<open>\<^verbatim>\<open>str(n)\<close> and \<^verbatim>\<open>int(s)\<close>\<close>

definition digit_char :: "nat \<Rightarrow> char" where
  "digit_char d = char_of (48 + d)"

fun str_nat :: "nat \<Rightarrow> string" where
  "str_nat n = (if n < 10 then [digit_char n] else str_nat (n div 10) @ [digit_char (n mod 10)])"

declare str_nat.simps [simp del]

definition py_str :: "int \<Rightarrow> string" where
  "py_str i = (if i < 0 then CHR ''-'' # str_nat (nat (- i)) else str_nat (nat i))"

text \<open>
  \<^verbatim>\<open>int(s)\<close> in base 10 on the ASCII characters: white space is stripped at both ends
  (tab, line feed, vertical tab, form feed, carriage return, the four separators
  \<^verbatim>\<open>0x1c\<close> to \<^verbatim>\<open>0x1f\<close> and the space), one sign is allowed, then digits, with single
  underscores allowed between two digits; anything else is \<^verbatim>\<open>ValueError\<close>. Decimal
  digits and white space outside ASCII, which Python also accepts, and the interpreter's
  limit on the number of digits are not modelled: a string with a byte of 128 or above is
  rejected here.
\<close>

definition is_space :: "char \<Rightarrow> bool" where
  "is_space c =
     ((9 \<le> (of_char c :: nat) \<and> (of_char c :: nat) \<le> 13)
      \<or> (28 \<le> (of_char c :: nat) \<and> (of_char c :: nat) \<le> 32))"

definition is_digit :: "char \<Rightarrow> bool" where
  "is_digit c = (48 \<le> (of_char c :: nat) \<and> (of_char c :: nat) \<le> 57)"

definition digit_val :: "char \<Rightarrow> nat" where
  "digit_val c = (of_char c :: nat) - 48"

fun well_placed :: "string \<Rightarrow> bool" where
  "well_placed [] = True"
| "well_placed [c] = (c \<noteq> CHR ''_'')"
| "well_placed (c # d # cs) = (\<not> (c = CHR ''_'' \<and> d = CHR ''_'') \<and> well_placed (d # cs))"

definition digits_value :: "string \<Rightarrow> nat" where
  "digits_value ds = foldl (\<lambda>acc c. 10 * acc + digit_val c) 0 ds"

definition parse_digits :: "string \<Rightarrow> py_error + nat" where
  "parse_digits s =
     (let body = takeWhile (\<lambda>c. is_digit c \<or> c = CHR ''_'') s;
          trailing = dropWhile (\<lambda>c. is_digit c \<or> c = CHR ''_'') s
      in if body = [] \<or> hd body = CHR ''_'' \<or> \<not> well_placed body
            \<or> \<not> list_all is_space trailing
         then Inl ValueError
         else Inr (digits_value (filter is_digit body)))"

definition py_int :: "string \<Rightarrow> py_error + int" where
  "py_int s =
     (case dropWhile is_space s of
        [] \<Rightarrow> Inl ValueError
      | c # cs \<Rightarrow>
          (if c = CHR ''-'' then
             (case parse_digits cs of Inl e \<Rightarrow> Inl e | Inr n \<Rightarrow> Inr (- int n))
           else if c = CHR ''+'' then
             (case parse_digits cs of Inl e \<Rightarrow> Inl e | Inr n \<Rightarrow> Inr (int n))
           else
             (case parse_digits (c # cs) of Inl e \<Rightarrow> Inl e | Inr n \<Rightarrow> Inr (int n))))"

subsection \<open>\<^verbatim>\<open>_positive_int\<close>\<close>

text \<open>\<open>cutoff\<close> is \<open>None\<close> or an integer; \<^verbatim>\<open>if cutoff:\<close> holds for an integer other than 0.\<close>

definition positive_int :: "string \<Rightarrow> bool \<Rightarrow> int option \<Rightarrow> py_error + int" where
  "positive_int integer_string strict cutoff =
     (case py_int integer_string of
        Inl e \<Rightarrow> Inl e
      | Inr ret \<Rightarrow>
          (if ret < 0 \<or> (ret = 0 \<and> strict) then Inl ValueError
           else (case cutoff of
                   None \<Rightarrow> Inr ret
                 | Some c \<Rightarrow> if c \<noteq> 0 then Inr (min ret c) else Inr ret)))"

subsection \<open>The cursor and its codec\<close>

record cursor =
  offset :: int
  reverse :: bool
  position :: "string option"

text \<open>\<^verbatim>\<open>tokens.get(k, [d])[0]\<close>: the first value of the name \<open>k\<close>, or the default.\<close>

definition first_value ::
  "(string \<rightharpoonup> string list) \<Rightarrow> string \<Rightarrow> 'a \<Rightarrow> (string \<Rightarrow> 'a) \<Rightarrow> py_error + 'a" where
  "first_value tokens k d f =
     (case tokens k of
        None \<Rightarrow> Inr d
      | Some [] \<Rightarrow> Inl IndexError
      | Some (v # _) \<Rightarrow> Inr (f v))"

text \<open>The body of the \<^verbatim>\<open>try\<close> block of \<^verbatim>\<open>decode_cursor\<close>.\<close>

definition decode_tokens :: "int option \<Rightarrow> string \<Rightarrow> py_error + cursor" where
  "decode_tokens offset_cutoff encoded =
     (case encode_ascii encoded of Inl e \<Rightarrow> Inl e | Inr ascii \<Rightarrow>
      case b64decode ascii of Inl e \<Rightarrow> Inl e | Inr decoded \<Rightarrow>
      case decode_ascii decoded of Inl e \<Rightarrow> Inl e | Inr querystring \<Rightarrow>
      let tokens = parse_qs querystring in
      case first_value tokens ''o'' ''0'' (\<lambda>v. v) of Inl e \<Rightarrow> Inl e | Inr o_value \<Rightarrow>
      case positive_int o_value False offset_cutoff of Inl e \<Rightarrow> Inl e | Inr off \<Rightarrow>
      case first_value tokens ''r'' ''0'' (\<lambda>v. v) of Inl e \<Rightarrow> Inl e | Inr r_value \<Rightarrow>
      case py_int r_value of Inl e \<Rightarrow> Inl e | Inr r \<Rightarrow>
      case first_value tokens ''p'' None Some of Inl e \<Rightarrow> Inl e | Inr pos \<Rightarrow>
      Inr \<lparr>offset = off, reverse = (r \<noteq> 0), position = pos\<rparr>)"

text \<open>
  \<^verbatim>\<open>except (TypeError, ValueError)\<close>: the exceptions that are instances of one of the
  two classes.
\<close>

fun caught :: "py_error \<Rightarrow> bool" where
  "caught TypeError = True"
| "caught ValueError = True"
| "caught UnicodeEncodeError = True"
| "caught UnicodeDecodeError = True"
| "caught BinasciiError = True"
| "caught _ = False"

text \<open>
  \<open>decode_cursor offset_cutoff encoded\<close>: \<open>encoded\<close> is
  \<^verbatim>\<open>request.query_params.get(self.cursor_query_param)\<close>, \<open>None\<close> when the request has no
  cursor. \<open>NotFound\<close> is \<^verbatim>\<open>NotFound(self.invalid_cursor_message)\<close>.
\<close>

definition decode_cursor :: "int option \<Rightarrow> string option \<Rightarrow> py_error + cursor option" where
  "decode_cursor offset_cutoff encoded =
     (case encoded of
        None \<Rightarrow> Inr None
      | Some e \<Rightarrow>
          (case decode_tokens offset_cutoff e of
             Inl err \<Rightarrow> if caught err then Inl NotFound else Inl err
           | Inr c \<Rightarrow> Inr (Some c)))"



subsection \<open>\<^verbatim>\<open>paginate_queryset\<close>\<close>

text \<open>
  What the paginator asks of its collaborators. \<open>scan ordering filter\<close> is the list of
  rows of \<^verbatim>\<open>queryset.order_by(*ordering)\<close>, restricted by \<^verbatim>\<open>.filter(q_object)\<close> when a
  filter is given, in the order the database returns them. \<open>str_of\<close> is \<^verbatim>\<open>str(attr)\<close>
  on a column value, \<open>json_dumps\<close> is \<^verbatim>\<open>json.dumps\<close> on a list of strings.
  \<open>json_loads\<close> is \<^verbatim>\<open>json.loads\<close> on the position string, giving the sequence that
  \<^verbatim>\<open>zip\<close> then iterates, with the values as the database compares them to the columns;
  it raises \<^verbatim>\<open>ValueError\<close> on text that is not JSON, and a document that cannot be
  iterated is the \<^verbatim>\<open>TypeError\<close> that \<^verbatim>\<open>zip\<close> raises.
\<close>

record 'v source =
  scan :: "string list \<Rightarrow> 'v q option \<Rightarrow> 'v row list"
  str_of :: "'v \<Rightarrow> string"
  json_dumps :: "string list \<Rightarrow> string"
  json_loads :: "string \<Rightarrow> py_error + 'v list"

text \<open>
  \<^verbatim>\<open>_get_position_from_instance\<close>: a row that lacks a field of the ordering raises
  (\<^verbatim>\<open>AttributeError\<close> for a model instance, \<^verbatim>\<open>KeyError\<close> for a dictionary; the model
  reports the first).
\<close>

definition get_position_from_instance ::
  "'v source \<Rightarrow> 'v row \<Rightarrow> string list \<Rightarrow> py_error + string" where
  "get_position_from_instance src inst ordr =
     (case map_raising
             (\<lambda>order. case inst (lstrip_dash order) of
                     None \<Rightarrow> Inl AttributeError
                   | Some attr \<Rightarrow> Inr (str_of src attr))
             ordr of
        Inl e \<Rightarrow> Inl e
      | Inr strs \<Rightarrow> Inr (json_dumps src strs))"

text \<open>
  What one call leaves on the paginator: the page and the navigation state.
  \<^verbatim>\<open>next_position\<close> and \<^verbatim>\<open>previous_position\<close> are assigned only under \<^verbatim>\<open>has_next\<close>
  and \<^verbatim>\<open>has_previous\<close>; \<open>None\<close> stands for an attribute the call did not assign and
  for an assigned \<^verbatim>\<open>None\<close>.
\<close>

record 'v page_state =
  page :: "'v row list"
  has_next :: bool
  has_previous :: bool
  next_position :: "string option"
  previous_position :: "string option"

text \<open>
  Lines 76 to 85: the three components of the cursor, \<^verbatim>\<open>(0, False, None)\<close> when the
  request has none, and the ordering of the scan.
\<close>

definition cursor_parts :: "cursor option \<Rightarrow> int \<times> bool \<times> string option" where
  "cursor_parts cur =
     (case cur of
        None \<Rightarrow> (0, False, None)
      | Some c \<Rightarrow> (offset c, reverse c, position c))"

definition scan_ordering :: "bool \<Rightarrow> string list \<Rightarrow> string list" where
  "scan_ordering rv ordr = (if rv then reverse_ordering ordr else ordr)"

text \<open>Lines 88 to 160: the filter for the position, if the cursor has one.\<close>

definition cursor_filter ::
  "('v::linorder) source \<Rightarrow> bool \<Rightarrow> string list \<Rightarrow> bool \<Rightarrow> string option
     \<Rightarrow> py_error + 'v q option" where
  "cursor_filter src use_tuple_comparison ordr rv current_position =
     (case current_position of
        None \<Rightarrow> Inr None
      | Some p \<Rightarrow>
          (case json_loads src p of
             Inl e \<Rightarrow> Inl e
           | Inr current_position_list \<Rightarrow>
               (case boundary_filter use_tuple_comparison rv ordr current_position_list of
                  Inl e \<Rightarrow> Inl e
                | Inr q_object \<Rightarrow> Inr (Some q_object))))"

text \<open>
  Lines 165 to 176: the slice \<^verbatim>\<open>queryset[offset : offset + page_size + 1]\<close> (a negative
  start is refused by the queryset), the page \<^verbatim>\<open>results[: page_size]\<close>, and the
  position of the row after the page when the slice has one. \<open>py_slice\<close> is
  \<^verbatim>\<open>xs[start : stop]\<close> for \<open>0 \<le> start \<le> stop\<close>.
\<close>

definition py_slice :: "nat \<Rightarrow> nat \<Rightarrow> 'a list \<Rightarrow> 'a list" where
  "py_slice start stop xs = take (stop - start) (drop start xs)"

definition fetch_window ::
  "'v source \<Rightarrow> nat \<Rightarrow> string list \<Rightarrow> int \<Rightarrow> 'v row list
     \<Rightarrow> py_error + ('v row list \<times> bool \<times> string option)" where
  "fetch_window src page_size ordr off rows =
     (if off < 0 then Inl ValueError
      else
        (let results = py_slice (nat off) (nat off + page_size + 1) rows;
             pg = take page_size results
         in if length results > length pg
            then (case get_position_from_instance src (last results) ordr of
                    Inl e \<Rightarrow> Inl e
                  | Inr following_position \<Rightarrow> Inr (pg, True, Some following_position))
            else Inr (pg, False, None)))"

text \<open>Lines 178 to 197: the page in presentation order and the navigation state.\<close>

definition navigation ::
  "bool \<Rightarrow> int \<Rightarrow> string option \<Rightarrow> 'v row list \<Rightarrow> bool \<Rightarrow> string option \<Rightarrow> 'v page_state" where
  "navigation rv off current_position pg has_following_position following_position =
     (if rv then
        \<lparr>page = rev pg,
         has_next = (current_position \<noteq> None \<or> off > 0),
         has_previous = has_following_position,
         next_position = (if current_position \<noteq> None \<or> off > 0 then current_position else None),
         previous_position = (if has_following_position then following_position else None)\<rparr>
      else
        \<lparr>page = pg,
         has_next = has_following_position,
         has_previous = (current_position \<noteq> None \<or> off > 0),
         next_position = (if has_following_position then following_position else None),
         previous_position =
           (if current_position \<noteq> None \<or> off > 0 then current_position else None)\<rparr>)"

text \<open>The function from line 76 on, for a cursor that has been decoded.\<close>

definition paginate_cursor ::
  "('v::linorder) source \<Rightarrow> nat \<Rightarrow> bool \<Rightarrow> string list \<Rightarrow> cursor option
     \<Rightarrow> py_error + 'v page_state" where
  "paginate_cursor src page_size use_tuple_comparison ordr cur =
     (case cursor_parts cur of
        (off, rv, current_position) \<Rightarrow>
          (case cursor_filter src use_tuple_comparison ordr rv current_position of
             Inl e \<Rightarrow> Inl e
           | Inr q_object \<Rightarrow>
               (case fetch_window src page_size ordr off
                       (scan src (scan_ordering rv ordr) q_object) of
                  Inl e \<Rightarrow> Inl e
                | Inr (pg, has_following_position, following_position) \<Rightarrow>
                    Inr (navigation rv off current_position pg
                           has_following_position following_position))))"

text \<open>
  The whole function. \<open>page_size\<close> is \<^verbatim>\<open>self.get_page_size(request)\<close>, 0 standing for
  \<^verbatim>\<open>None\<close> as well; the result \<open>None\<close> is the \<^verbatim>\<open>return None\<close> of line 70. The ordering is
  resolved before the cursor is decoded.
\<close>

definition paginate_queryset ::
  "('v::linorder) source \<Rightarrow> nat \<Rightarrow> bool \<Rightarrow> int option
     \<Rightarrow> ordering_decl option \<Rightarrow> ordering_decl \<Rightarrow> string \<Rightarrow> string option
     \<Rightarrow> py_error + 'v page_state option" where
  "paginate_queryset src page_size use_tuple_comparison offset_cutoff
       filter_ordering self_ordering pk_name encoded =
     (if page_size = 0 then Inr None
      else
        (case get_ordering filter_ordering self_ordering pk_name of
           Inl e \<Rightarrow> Inl e
         | Inr ordr \<Rightarrow>
             (case decode_cursor offset_cutoff encoded of
                Inl e \<Rightarrow> Inl e
              | Inr cur \<Rightarrow>
                  (case paginate_cursor src page_size use_tuple_comparison ordr cur of
                     Inl e \<Rightarrow> Inl e
                   | Inr st \<Rightarrow> Inr (Some st)))))"

subsection \<open>A data source for the worked examples\<close>

text \<open>
  A table held as a list of rows: the scan filters the rows by the meaning of the filter
  and sorts them by the ordering, each field in its direction. Its JSON functions cover
  the positions the examples use: arrays of integers, written with or without quotes.
\<close>

fun row_before :: "string list \<Rightarrow> ('v::linorder) row \<Rightarrow> 'v row \<Rightarrow> bool" where
  "row_before [] a b = False"
| "row_before (o_spec # rest) a b =
     (case (a (lstrip_dash o_spec), b (lstrip_dash o_spec)) of
        (Some x, Some y) \<Rightarrow>
          if x = y then row_before rest a b
          else if startswith_dash o_spec then y < x else x < y
      | _ \<Rightarrow> False)"

fun insert_row :: "string list \<Rightarrow> ('v::linorder) row \<Rightarrow> 'v row list \<Rightarrow> 'v row list" where
  "insert_row ordr r [] = [r]"
| "insert_row ordr r (x # xs) =
     (if row_before ordr r x then r # x # xs else x # insert_row ordr r xs)"

definition list_scan ::
  "('v::linorder) row list \<Rightarrow> string list \<Rightarrow> 'v q option \<Rightarrow> 'v row list" where
  "list_scan table ordr filt =
     foldr (insert_row ordr)
       (filter (\<lambda>r. case filt of None \<Rightarrow> True | Some q_object \<Rightarrow> q_holds r q_object) table) []"

definition example_dumps :: "string list \<Rightarrow> string" where
  "example_dumps strs = ''['' @ join '', '' (map (\<lambda>s. CHR 0x22 # s @ [CHR 0x22]) strs) @ '']''"

definition example_loads :: "string \<Rightarrow> py_error + int list" where
  "example_loads s =
     (case s of
        [] \<Rightarrow> Inl ValueError
      | c # rest \<Rightarrow>
          if c \<noteq> CHR ''['' \<or> rest = [] \<or> last rest \<noteq> CHR '']'' then Inl ValueError
          else if butlast rest = [] then Inr []
          else map_raising (\<lambda>t. py_int (filter (\<lambda>x. x \<noteq> CHR 0x22) t))
                 (split_on (CHR '','') (butlast rest)))"

definition example_source :: "int row list \<Rightarrow> int source" where
  "example_source table =
     \<lparr>scan = list_scan table, str_of = py_str,
      json_dumps = example_dumps, json_loads = example_loads\<rparr>"

text \<open>Five rows with the keys 1 to 5, each with a second column \<^verbatim>\<open>field\<close>.\<close>

definition example_table :: "int row list" where
  "example_table =
     map map_of
       [[(''id'', 3), (''field'', 20)], [(''id'', 1), (''field'', 10)],
        [(''id'', 5), (''field'', 10)], [(''id'', 2), (''field'', 20)],
        [(''id'', 4), (''field'', 10)]]"

subsection \<open>Auxiliary definitions for the properties\<close>





text \<open>The \<open>k\<close>-th disjunct of the expansion.\<close>

definition lex_term :: "bool \<Rightarrow> string list \<Rightarrow> ('v::linorder) list \<Rightarrow> 'v row \<Rightarrow> nat \<Rightarrow> bool" where
  "lex_term rv ordr vs r k =
     (list_all (\<lambda>j. spec_field_eq r (ordr ! j) (vs ! j)) [0 ..< k]
      \<and> spec_field_cmp rv r (ordr ! k) (vs ! k))"


section \<open>Properties of \<^verbatim>\<open>_reverse_ordering\<close>\<close>

lemma invert_invert:
  "invert (invert x) = x \<longleftrightarrow> \<not> starts_with ''--'' x"
proof (cases x)
  case Nil
  then show ?thesis by (simp add: invert_def)
next
  case (Cons c cs)
  then show ?thesis by (cases cs) (auto simp: invert_def)
qed

lemma lstrip_dash_invert:
  "lstrip_dash (invert x) = lstrip_dash x"
  by (cases x) (auto simp: invert_def lstrip_dash_def)

text \<open>
  C10 as stated fails: a specifier that begins with two dashes loses one dash at each
  application, so two applications do not return it, and its direction is not flipped.
\<close>

theorem reverse_ordering_twice_counterexample:
  "reverse_ordering (reverse_ordering [''--a'']) = [''a'']
   \<and> reverse_ordering (reverse_ordering [''--a'']) \<noteq> [''--a'']
   \<and> startswith_dash (hd (reverse_ordering [''--a''])) = startswith_dash ''--a''"
  by (simp add: reverse_ordering_def invert_def)

text \<open>
  C10 (amended): for every ordering tuple none of whose specifiers begins with two
  dashes, \<^verbatim>\<open>_reverse_ordering\<close> keeps the length of the tuple, keeps at every index the
  field the specifier names (the specifier without its leading dashes), flips at every
  index the direction (a leading dash is there afterwards exactly when it was not there
  before), and applied twice returns the original tuple.
\<close>

theorem reverse_ordering_involution:
  assumes "\<forall>x \<in> set t. \<not> starts_with ''--'' x"
  shows "length (reverse_ordering t) = length t
     \<and> (\<forall>i < length t.
           lstrip_dash (reverse_ordering t ! i) = lstrip_dash (t ! i)
         \<and> startswith_dash (reverse_ordering t ! i) = (\<not> startswith_dash (t ! i)))
     \<and> reverse_ordering (reverse_ordering t) = t"
proof -
  have flip: "startswith_dash (invert x) = (\<not> startswith_dash x)"
    if "\<not> starts_with ''--'' x" for x
  proof (cases x)
    case Nil
    then show ?thesis by (simp add: invert_def)
  next
    case (Cons c cs)
    with that show ?thesis by (cases cs) (auto simp: invert_def)
  qed
  have twice: "map invert (map invert t) = t"
    using assms by (induction t) (simp_all add: invert_invert)
  show ?thesis
    using assms flip twice
    by (simp add: reverse_ordering_def lstrip_dash_invert)
qed

theorem reverse_ordering_involution_witness:
  "\<not> starts_with ''--'' ''-created'' \<and> \<not> starts_with ''--'' ''uuid''
   \<and> reverse_ordering [''-created'', ''uuid''] = [''created'', ''-uuid'']
   \<and> reverse_ordering (reverse_ordering [''-created'', ''uuid'']) = [''-created'', ''uuid'']"
  using reverse_ordering_involution [of "[''-created'', ''uuid'']"]
  by (simp add: reverse_ordering_def invert_def)

section \<open>Properties of \<^verbatim>\<open>get_ordering\<close>\<close>

lemma get_ordering_rejects_dunder_string:
  "str_contains ''__'' s \<Longrightarrow> get_ordering None (StrDecl s) pk_name = Inl AssertionError"
  by (simp add: get_ordering_def)

text \<open>
  C6: the assertion of the class-attribute branch tests \<^verbatim>\<open>"__" not in ordering\<close>. On a
  list or a tuple that is element membership, so the ordering \<^verbatim>\<open>["author__name"]\<close>,
  which contains a double-underscore lookup, passes the assertion and is resolved to
  \<^verbatim>\<open>("author__name", "id")\<close>; the same ordering declared as the string
  \<^verbatim>\<open>"author__name"\<close> is rejected.
\<close>

theorem get_ordering_accepts_dunder_in_list:
  "get_ordering None (SeqDecl [''author__name'']) ''id'' = Inr [''author__name'', ''id'']
   \<and> get_ordering None (StrDecl ''author__name'') ''id'' = Inl AssertionError"
  by (simp add: get_ordering_def include_unique_key_def has_unique_key_def)

text \<open>
  C7: a declared ordering that is a string or a list/tuple of strings (\<open>t\<close> is its tuple
  form) and is not rejected by an assertion resolves to \<open>t\<close> itself when \<open>t\<close> has one of
  \<^verbatim>\<open>pk_name\<close>, \<^verbatim>\<open>"-" + pk_name\<close>, \<^verbatim>\<open>"pk"\<close>, \<^verbatim>\<open>"-pk"\<close> among its elements, and to \<open>t\<close>
  followed by \<^verbatim>\<open>pk_name\<close> otherwise; whether the ordering comes from a filter backend or
  from the class attribute.
\<close>

theorem get_ordering_unique_key:
  assumes "ordering_tuple_of decl = Inr t"
  shows "get_ordering (Some decl) self_ordering pk_name =
           Inr (if pk_name \<in> set t \<or> (CHR ''-'' # pk_name) \<in> set t
                   \<or> ''pk'' \<in> set t \<or> ''-pk'' \<in> set t
                then t else t @ [pk_name])
       \<and> (\<not> dunder_in decl \<longrightarrow>
           get_ordering None decl pk_name =
             Inr (if pk_name \<in> set t \<or> (CHR ''-'' # pk_name) \<in> set t
                     \<or> ''pk'' \<in> set t \<or> ''-pk'' \<in> set t
                  then t else t @ [pk_name]))"
proof -
  have not_none: "decl \<noteq> NoneDecl"
    using assms by (cases decl) simp_all
  have key: "has_unique_key pk_name t \<longleftrightarrow>
      (pk_name \<in> set t \<or> (CHR ''-'' # pk_name) \<in> set t \<or> ''pk'' \<in> set t \<or> ''-pk'' \<in> set t)"
    unfolding has_unique_key_def by blast
  show ?thesis
    using assms not_none key
    by (simp add: get_ordering_def include_unique_key_def)
qed

theorem get_ordering_unique_key_witness:
  "ordering_tuple_of (SeqDecl [''name'']) = Inr [''name'']
   \<and> \<not> dunder_in (SeqDecl [''name''])
   \<and> get_ordering None (SeqDecl [''name'']) ''id'' = Inr [''name'', ''id'']
   \<and> get_ordering None (SeqDecl [''id'']) ''id'' = Inr [''id'']
   \<and> get_ordering None (StrDecl ''-pk'') ''id'' = Inr [''-pk'']"
  using get_ordering_unique_key [of "SeqDecl [''name'']" "[''name'']" NoneDecl "''id''"]
        get_ordering_unique_key [of "SeqDecl [''id'']" "[''id'']" NoneDecl "''id''"]
        get_ordering_unique_key [of "StrDecl ''-pk''" "[''-pk'']" NoneDecl "''id''"]
  by simp

section \<open>Properties of the boundary filter\<close>

subsection \<open>The two dictionaries and the rounds of the loop\<close>

lemma q_objects_other:
  "k \<notin> fst ` set zs \<Longrightarrow>
   fst (q_objects rv zs (eqs, cmps)) k = eqs k \<and> snd (q_objects rv zs (eqs, cmps)) k = cmps k"
  by (induction zs arbitrary: eqs cmps) (auto simp: Let_def)

lemma q_objects_at:
  "distinct (map fst zs) \<Longrightarrow> (k, v) \<in> set zs \<Longrightarrow>
   fst (q_objects rv zs (eqs, cmps)) k = Some (Q_exact (lstrip_dash k) v)
   \<and> snd (q_objects rv zs (eqs, cmps)) k =
       Some (if rv \<noteq> startswith_dash k then Q_lt (lstrip_dash k) v else Q_gt (lstrip_dash k) v)"
proof (induction zs arbitrary: eqs cmps)
  case Nil
  then show ?case by simp
next
  case (Cons z zs)
  obtain k' v' where z: "z = (k', v')" by (cases z)
  show ?case
  proof (cases "(k, v) \<in> set zs")
    case True
    with Cons z show ?thesis by (auto simp: Let_def)
  next
    case False
    with Cons.prems z have kv: "k' = k" "v' = v" by auto
    with Cons.prems z have "k \<notin> fst ` set zs" by auto
    from q_objects_other[OF this] kv z show ?thesis by (auto simp: Let_def)
  qed
qed

lemma q_holds_foldl_and:
  "q_holds r (foldl Q_and x xs) = (q_holds r x \<and> list_all (q_holds r) xs)"
  by (induction xs arbitrary: x) auto

lemma q_holds_foldl_or:
  "q_holds r (foldl Q_or x xs) = (q_holds r x \<or> list_ex (q_holds r) xs)"
  by (induction xs arbitrary: x) auto

lemma map_raising_Inr:
  "\<forall>x \<in> set xs. g x = Inr (h x) \<Longrightarrow> map_raising g xs = Inr (map h xs)"
  by (induction xs) auto

lemma reduce_and_snoc:
  "\<exists>q. reduce Q_and (xs @ [g]) = Inr q
       \<and> (\<forall>r. q_holds r q = (list_all (q_holds r) xs \<and> q_holds r g))"
  by (cases xs) (auto simp: q_holds_foldl_and)

lemma q_objects_zip_at:
  assumes "distinct ordr" "length ordr \<le> length vs" "i < length ordr"
    and "q_objects rv (zip ordr vs) (Map.empty, Map.empty) = (E, C)"
  shows "E (ordr ! i) = Some (Q_exact (lstrip_dash (ordr ! i)) (vs ! i))"
    and "C (ordr ! i) = Some (if rv \<noteq> startswith_dash (ordr ! i)
                               then Q_lt (lstrip_dash (ordr ! i)) (vs ! i)
                               else Q_gt (lstrip_dash (ordr ! i)) (vs ! i))"
proof -
  have d: "distinct (map fst (zip ordr vs))"
    using assms(1,2) by (simp add: map_fst_zip_take)
  have m: "(ordr ! i, vs ! i) \<in> set (zip ordr vs)"
    using assms(2,3) by (auto simp: set_zip)
  from q_objects_at[OF d m, of rv Map.empty Map.empty] assms(4)
  show "E (ordr ! i) = Some (Q_exact (lstrip_dash (ordr ! i)) (vs ! i))"
    and "C (ordr ! i) = Some (if rv \<noteq> startswith_dash (ordr ! i)
                               then Q_lt (lstrip_dash (ordr ! i)) (vs ! i)
                               else Q_gt (lstrip_dash (ordr ! i)) (vs ! i))"
    by simp_all
qed

lemma map_raising_map: "map_raising g (map f xs) = map_raising (\<lambda>x. g (f x)) xs"
  by (induction xs) (simp_all split: sum.splits)

lemma take_as_map_nth: "k \<le> length xs \<Longrightarrow> take k xs = map ((!) xs) [0 ..< k]"
  by (rule nth_equalityI) auto

lemma sub_filter_holds:
  assumes "distinct ordr" "length ordr \<le> length vs" "i < length ordr"
    and "q_objects rv (zip ordr vs) (Map.empty, Map.empty) = (E, C)"
  shows "\<exists>q. sub_filter E C ordr i = Inr q
          \<and> (\<forall>r. q_holds r q = lex_term rv ordr vs r (min (i + 2) (length ordr) - 1))"
proof -
  let ?n = "length ordr"
  let ?m = "min (i + 2) ?n"
  let ?eqs = "map (\<lambda>j. Q_exact (lstrip_dash (ordr ! j)) (vs ! j)) [0 ..< ?m - 1]"
  let ?g = "if rv \<noteq> startswith_dash (ordr ! (?m - 1))
            then Q_lt (lstrip_dash (ordr ! (?m - 1))) (vs ! (?m - 1))
            else Q_gt (lstrip_dash (ordr ! (?m - 1))) (vs ! (?m - 1))"
  have m_pos: "0 < ?m" "?m - 1 < ?n" using assms(3) by auto
  have ne: "take (i + 2) ordr \<noteq> []" using assms(3) by auto
  have last_eq: "last (take (i + 2) ordr) = ordr ! (?m - 1)"
    using ne m_pos by (simp add: last_conv_nth min_def)
  have butlast_eq: "butlast (take (i + 2) ordr) = take (?m - 1) ordr"
  proof (cases "i + 2 \<le> ?n")
    case True
    then show ?thesis by (simp add: butlast_take min_def)
  next
    case False
    then show ?thesis by (simp add: min_def butlast_conv_take)
  qed
  have take_map: "take (?m - 1) ordr = map ((!) ordr) [0 ..< ?m - 1]"
    using m_pos by (intro take_as_map_nth) simp
  have E_at: "\<forall>j \<in> set [0 ..< ?m - 1].
      dict_get E (ordr ! j) = Inr (Q_exact (lstrip_dash (ordr ! j)) (vs ! j))"
    using q_objects_zip_at(1)[OF assms(1,2) _ assms(4)] m_pos
    by (auto simp: dict_get_def)
  have mr: "map_raising (dict_get E) (take (?m - 1) ordr) = Inr ?eqs"
    unfolding take_map map_raising_map
    by (rule map_raising_Inr) (use E_at in simp)
  have C_at: "dict_get C (ordr ! (?m - 1)) = Inr ?g"
    using q_objects_zip_at(2)[OF assms(1,2) m_pos(2) assms(4)]
    by (simp add: dict_get_def)
  obtain q where q: "reduce Q_and (?eqs @ [?g]) = Inr q"
    and qh: "\<forall>r. q_holds r q = (list_all (q_holds r) ?eqs \<and> q_holds r ?g)"
    using reduce_and_snoc[of ?eqs ?g] by blast
  have sf: "sub_filter E C ordr i = Inr q"
    unfolding sub_filter_def Let_def
    using ne by (simp only: last_eq butlast_eq C_at mr q if_False sum.case)
  have sem: "q_holds r q = lex_term rv ordr vs r (?m - 1)" for r
    unfolding lex_term_def
    using qh by (auto simp: list_all_iff spec_field_eq_def spec_field_cmp_def split: option.splits)
  from sf sem show ?thesis by blast
qed

lemma disjunctive_filter_holds:
  assumes "ordr \<noteq> []" "distinct ordr" "length ordr \<le> length vs"
  shows "\<exists>q. disjunctive_filter rv ordr vs = Inr q
          \<and> (\<forall>r. q_holds r q = spec_expansion rv ordr vs r)"
proof -
  let ?n = "length ordr"
  obtain E C where EC: "q_objects rv (zip ordr vs) (Map.empty, Map.empty) = (E, C)"
    by (cases "q_objects rv (zip ordr vs) (Map.empty, Map.empty)")
  obtain first rest where ordr: "ordr = first # rest" using assms(1) by (cases ordr) auto
  have n_pos: "0 < ?n" using assms(1) by simp
  let ?g0 = "if rv \<noteq> startswith_dash (ordr ! 0)
            then Q_lt (lstrip_dash (ordr ! 0)) (vs ! 0)
            else Q_gt (lstrip_dash (ordr ! 0)) (vs ! 0)"
  have C0: "dict_get C first = Inr ?g0"
    using q_objects_zip_at(2)[OF assms(2,3) n_pos EC] ordr by (simp add: dict_get_def)
  have g0: "q_holds r ?g0 = lex_term rv ordr vs r 0" for r
    by (auto simp: lex_term_def spec_field_cmp_def split: option.splits)
  define round where "round i = (SOME q. sub_filter E C ordr i = Inr q)" for i
  have round_ok: "sub_filter E C ordr i = Inr (round i)
      \<and> (\<forall>r. q_holds r (round i) = lex_term rv ordr vs r (min (i + 2) ?n - 1))"
    if "i < ?n" for i
  proof -
    from sub_filter_holds[OF assms(2,3) that EC] obtain q where
      q: "sub_filter E C ordr i = Inr q"
      "\<forall>r. q_holds r q = lex_term rv ordr vs r (min (i + 2) ?n - 1)" by blast
    then have "round i = q" unfolding round_def by simp
    with q show ?thesis by simp
  qed
  have rounds: "map_raising (sub_filter E C ordr) [0 ..< ?n] = Inr (map round [0 ..< ?n])"
    by (rule map_raising_Inr) (use round_ok in simp)
  have df: "disjunctive_filter rv ordr vs = Inr (foldl Q_or ?g0 (map round [0 ..< ?n]))"
    unfolding disjunctive_filter_def EC
    using C0 rounds ordr by simp
  have sem: "q_holds r (foldl Q_or ?g0 (map round [0 ..< ?n])) = spec_expansion rv ordr vs r" for r
  proof -
    have "q_holds r (foldl Q_or ?g0 (map round [0 ..< ?n]))
        = (lex_term rv ordr vs r 0 \<or> (\<exists>i < ?n. lex_term rv ordr vs r (min (i + 2) ?n - 1)))"
      unfolding q_holds_foldl_or g0
      using round_ok by (auto simp: list_ex_iff)
    also have "\<dots> = (\<exists>k < ?n. lex_term rv ordr vs r k)"
    proof
      assume "lex_term rv ordr vs r 0 \<or> (\<exists>i < ?n. lex_term rv ordr vs r (min (i + 2) ?n - 1))"
      then show "\<exists>k < ?n. lex_term rv ordr vs r k"
      proof
        assume "lex_term rv ordr vs r 0"
        with n_pos show ?thesis by blast
      next
        assume "\<exists>i < ?n. lex_term rv ordr vs r (min (i + 2) ?n - 1)"
        then obtain i where "i < ?n" "lex_term rv ordr vs r (min (i + 2) ?n - 1)" by blast
        moreover from \<open>i < ?n\<close> have "min (i + 2) ?n - 1 < ?n" by auto
        ultimately show ?thesis by blast
      qed
    next
      assume "\<exists>k < ?n. lex_term rv ordr vs r k"
      then obtain k where k: "k < ?n" "lex_term rv ordr vs r k" by blast
      show "lex_term rv ordr vs r 0 \<or> (\<exists>i < ?n. lex_term rv ordr vs r (min (i + 2) ?n - 1))"
      proof (cases k)
        case 0
        with k show ?thesis by simp
      next
        case (Suc i)
        with k have "i < ?n" "min (i + 2) ?n - 1 = k" by auto
        with k show ?thesis by blast
      qed
    qed
    also have "\<dots> = spec_expansion rv ordr vs r"
      by (auto simp: spec_expansion_def lex_term_def list_ex_iff)
    finally show ?thesis .
  qed
  from df sem show ?thesis by blast
qed

text \<open>
  The two dictionaries are keyed by the specifier, so an ordering that repeats a specifier
  keeps only the last value given for it: for \<^verbatim>\<open>("a", "a")\<close> at \<^verbatim>\<open>(1, 2)\<close> the filter is
  \<open>a > 2\<close>, where the expansion is \<open>a > 1\<close>. The properties below are about orderings
  without repetition.
\<close>

lemma disjunctive_filter_repeated_specifier:
  "disjunctive_filter False [''a'', ''a''] [1, 2 :: int]
     = Inr (Q_or (Q_or (Q_gt ''a'' 2) (Q_and (Q_exact ''a'' 2) (Q_gt ''a'' 2)))
                 (Q_and (Q_exact ''a'' 2) (Q_gt ''a'' 2)))"
  by code_simp

text \<open>
  C1: for a non-empty ordering whose specifiers are pairwise distinct (the invariant of an
  ordering: no field appears more than once) and a position list with one value per
  specifier, the disjunctive branch raises nothing, and the filter it builds holds on a
  row exactly when the lexicographic expansion does: some \<open>i\<close> has all the fields before
  \<open>i\<close> equal to their values and field \<open>i\<close> beyond its value, \<open>>\<close> when (specifier \<open>i\<close>
  descending) XOR (cursor reversed) is false and \<open><\<close> otherwise. The witness is the
  ordering \<^verbatim>\<open>("-a", "b")\<close> at position \<^verbatim>\<open>(5, 10)\<close>, forward:
  \<open>a < 5 \<or> (a = 5 \<and> b > 10)\<close>.
\<close>

theorem disjunctive_filter_lexicographic:
  assumes "ordr \<noteq> []" "distinct ordr" "length vs = length ordr"
  shows "\<exists>q. disjunctive_filter rv ordr vs = Inr q
          \<and> (\<forall>r. q_holds r q = spec_expansion rv ordr vs r)"
  using disjunctive_filter_holds[of ordr vs rv] assms by simp

subsection \<open>The expansion as a recursion, and the tuple comparison\<close>

lemma spec_expansion_Nil: "spec_expansion rv [] vs r = False"
  by (simp add: spec_expansion_def)

lemma spec_expansion_iff:
  "spec_expansion rv ordr vs r \<longleftrightarrow>
     (\<exists>i < length ordr. (\<forall>j < i. spec_field_eq r (ordr ! j) (vs ! j))
                          \<and> spec_field_cmp rv r (ordr ! i) (vs ! i))"
  unfolding spec_expansion_def list_ex_iff list_all_iff
  by (simp add: Bex_def Ball_def)

lemma ex_lex_Suc:
  "(\<exists>i < Suc n. (\<forall>j < i. E j) \<and> C i) \<longleftrightarrow>
   (C 0 \<or> (E 0 \<and> (\<exists>i < n. (\<forall>j < i. E (Suc j)) \<and> C (Suc i))))"
proof
  assume "\<exists>i < Suc n. (\<forall>j < i. E j) \<and> C i"
  then obtain i where i: "i < Suc n" "\<forall>j < i. E j" "C i" by blast
  show "C 0 \<or> (E 0 \<and> (\<exists>i < n. (\<forall>j < i. E (Suc j)) \<and> C (Suc i)))"
  proof (cases i)
    case 0
    with i show ?thesis by simp
  next
    case (Suc k)
    with i have "E 0" "k < n" "\<forall>j < k. E (Suc j)" "C (Suc k)" by auto
    then show ?thesis by blast
  qed
next
  assume "C 0 \<or> (E 0 \<and> (\<exists>i < n. (\<forall>j < i. E (Suc j)) \<and> C (Suc i)))"
  then show "\<exists>i < Suc n. (\<forall>j < i. E j) \<and> C i"
  proof
    assume "C 0"
    then have "0 < Suc n \<and> (\<forall>j < 0. E j) \<and> C 0" by simp
    then show ?thesis by blast
  next
    assume "E 0 \<and> (\<exists>i < n. (\<forall>j < i. E (Suc j)) \<and> C (Suc i))"
    then obtain i where i: "E 0" "i < n" "\<forall>j < i. E (Suc j)" "C (Suc i)" by blast
    have "E j" if "j < Suc i" for j
      using that i(1,3) by (cases j) auto
    with i show ?thesis by (intro exI[of _ "Suc i"]) simp
  qed
qed

lemma spec_expansion_Cons:
  "spec_expansion rv (f # fs) (v # vs) r =
     (spec_field_cmp rv r f v \<or> (spec_field_eq r f v \<and> spec_expansion rv fs vs r))"
  unfolding spec_expansion_iff length_Cons
  using ex_lex_Suc[of "length fs" "\<lambda>j. spec_field_eq r ((f # fs) ! j) ((v # vs) ! j)"
                      "\<lambda>i. spec_field_cmp rv r ((f # fs) ! i) ((v # vs) ! i)"]
  by simp

lemma tuple_cmp_expansion:
  assumes "\<forall>f \<in> set ordr. startswith_dash f = d" "length ordr \<le> length vs"
  shows "tuple_cmp (if d \<noteq> rv then (\<lambda>x v. x < v) else (\<lambda>x v. v < x)) r
            (map lstrip_dash ordr) (map fst (zip vs (map lstrip_dash ordr)))
         = spec_expansion rv ordr vs r"
  using assms
proof (induction ordr arbitrary: vs)
  case Nil
  then show ?case by (simp add: spec_expansion_Nil)
next
  case (Cons f fs)
  then obtain v vs' where vs: "vs = v # vs'" by (cases vs) auto
  with Cons show ?case
    by (auto simp: spec_expansion_Cons spec_field_cmp_def spec_field_eq_def split: option.splits)
qed

lemma uniform_direction:
  assumes "uniform_ordering ordr" "ordr \<noteq> []"
  shows "\<exists>d. (\<forall>f \<in> set ordr. startswith_dash f = d)
            \<and> all_ascending ordr = (\<not> d) \<and> all_descending ordr = d"
proof (cases "all_ascending ordr")
  case True
  then have "\<forall>f \<in> set ordr. startswith_dash f = False"
    by (auto simp: all_ascending_def list_ex_iff)
  moreover from this assms(2) have "\<not> all_descending ordr"
    by (cases ordr) (auto simp: all_descending_def list_all_iff)
  ultimately show ?thesis using True by auto
next
  case False
  with assms(1) have d: "all_descending ordr" by (simp add: uniform_ordering_def)
  then have "\<forall>f \<in> set ordr. startswith_dash f = True"
    by (auto simp: all_descending_def list_all_iff)
  with False d show ?thesis by auto
qed

lemma tuple_filter_holds:
  assumes "uniform_ordering ordr" "ordr \<noteq> []" "length ordr \<le> length vs"
  shows "q_holds r (tuple_filter rv ordr vs) = spec_expansion rv ordr vs r"
proof -
  from uniform_direction[OF assms(1,2)] obtain d where
    d: "\<forall>f \<in> set ordr. startswith_dash f = d" "all_ascending ordr = (\<not> d)" "all_descending ordr = d"
    by blast
  show ?thesis
    using tuple_cmp_expansion[OF d(1) assms(3), of rv r] d(2,3)
    by (cases d; cases rv) (simp_all add: tuple_filter_def Let_def)
qed


theorem disjunctive_filter_lexicographic_witness:
  "[''-a'', ''b''] \<noteq> [] \<and> distinct [''-a'', ''b'']
   \<and> length [5, 10 :: int] = length [''-a'', ''b'']
   \<and> (\<exists>q. disjunctive_filter False [''-a'', ''b''] [5, 10 :: int] = Inr q
        \<and> (\<forall>r. q_holds r q =
               ((case r ''a'' of None \<Rightarrow> False | Some x \<Rightarrow> x < 5)
                \<or> (r ''a'' = Some 5 \<and> (case r ''b'' of None \<Rightarrow> False | Some y \<Rightarrow> 10 < y)))))"
proof -
  have e: "spec_expansion False [''-a'', ''b''] [5, 10 :: int] r =
      ((case r ''a'' of None \<Rightarrow> False | Some x \<Rightarrow> x < 5)
       \<or> (r ''a'' = Some 5 \<and> (case r ''b'' of None \<Rightarrow> False | Some y \<Rightarrow> 10 < y)))" for r
    by (auto simp: spec_expansion_Cons spec_expansion_Nil spec_field_eq_def spec_field_cmp_def
        lstrip_dash_def split: option.splits)
  show ?thesis
    using disjunctive_filter_lexicographic[of "[''-a'', ''b'']" "[5, 10 :: int]" False] e by simp
qed

text \<open>
  C3: for a non-empty ordering that is uniformly ascending or uniformly descending, with
  pairwise distinct specifiers, a position with a value for every specifier and either
  traversal direction, both strategies build a filter, and on every list of rows the
  tuple comparison (\<^verbatim>\<open>_cursor_tuple__gt\<close> or \<^verbatim>\<open>_cursor_tuple__lt\<close>, as \<^verbatim>\<open>should_use_gt\<close>
  chooses) selects the rows the disjunctive filter selects.
\<close>

theorem tuple_equals_disjunctive:
  assumes "uniform_ordering ordr" "ordr \<noteq> []" "distinct ordr" "length ordr \<le> length vs"
  shows "\<exists>qt qd. boundary_filter True rv ordr vs = Inr qt
              \<and> boundary_filter False rv ordr vs = Inr qd
              \<and> (\<forall>rows. filter (\<lambda>r. q_holds r qt) rows = filter (\<lambda>r. q_holds r qd) rows)"
proof -
  from disjunctive_filter_holds[OF assms(2,3,4), of rv] obtain qd where
    qd: "disjunctive_filter rv ordr vs = Inr qd" "\<forall>r. q_holds r qd = spec_expansion rv ordr vs r"
    by blast
  have "boundary_filter True rv ordr vs = Inr (tuple_filter rv ordr vs)"
    using assms(1) by (simp add: boundary_filter_def should_use_tuple_comparison_def)
  moreover have "boundary_filter False rv ordr vs = Inr qd"
    using qd(1) by (simp add: boundary_filter_def should_use_tuple_comparison_def)
  moreover have "q_holds r (tuple_filter rv ordr vs) = q_holds r qd" for r
    using tuple_filter_holds[OF assms(1,2,4)] qd(2) by simp
  ultimately show ?thesis by simp
qed


theorem tuple_equals_disjunctive_witness:
  "uniform_ordering [''field'', ''id''] \<and> [''field'', ''id''] \<noteq> [] \<and> distinct [''field'', ''id'']
   \<and> length [''field'', ''id''] \<le> length [3, 7 :: int]
   \<and> boundary_filter True False [''field'', ''id''] [3, 7 :: int]
        = Inr (Tuple_gt [''field'', ''id''] [3, 7])
   \<and> (\<exists>qd. boundary_filter False False [''field'', ''id''] [3, 7 :: int] = Inr qd
        \<and> (\<forall>rows. filter (\<lambda>r. q_holds r (Tuple_gt [''field'', ''id''] [3, 7])) rows
                   = filter (\<lambda>r. q_holds r qd) rows))"
proof -
  have u: "uniform_ordering [''field'', ''id'']"
    by (simp add: uniform_ordering_def all_ascending_def)
  have t: "boundary_filter True False [''field'', ''id''] [3, 7 :: int]
        = Inr (Tuple_gt [''field'', ''id''] [3, 7])"
    using u by (simp add: boundary_filter_def should_use_tuple_comparison_def tuple_filter_def
        all_ascending_def lstrip_dash_def)
  show ?thesis
    using tuple_equals_disjunctive[of "[''field'', ''id'']" "[3, 7 :: int]" False] u t
    by simp
qed

section \<open>Properties of the cursor codec\<close>

subsection \<open>Base64: decoding an encoding\<close>


















subsection \<open>UTF-8: decoding well-formed bytes\<close>



subsection \<open>Integers: parsing what \<^verbatim>\<open>str\<close> prints\<close>












subsection \<open>Percent-encoding: unquoting a quoted string\<close>















subsection \<open>The query string: parsing what \<^verbatim>\<open>urlencode\<close> writes\<close>












subsection \<open>Decoding an encoded cursor\<close>

lemma collect_single:
  "d k = None \<Longrightarrow> k \<notin> fst ` set q \<Longrightarrow> collect ((k, v) # q) d k = Some [v]"
proof -
  have other: "k \<notin> fst ` set q \<Longrightarrow> collect q d' k = d' k" for d'
    by (induction q arbitrary: d') (auto split: option.splits)
  assume "d k = None" "k \<notin> fst ` set q"
  with other[of "d(k \<mapsto> [v])"] show ?thesis by simp
qed










subsection \<open>When \<^verbatim>\<open>decode_cursor\<close> fails\<close>



















section \<open>Properties of \<^verbatim>\<open>paginate_queryset\<close>\<close>

subsection \<open>The window, the page and the following position\<close>

lemma window_longer:
  "length (py_slice k (Suc (k + s)) rows) > length (take s (py_slice k (Suc (k + s)) rows))
     \<longleftrightarrow> k + s < length rows"
  by (auto simp: py_slice_def min_def)

lemma window_page: "take s (py_slice k (Suc (k + s)) rows) = take s (drop k rows)"
  by (simp add: py_slice_def min_def)

lemma window_last:
  "k + s < length rows \<Longrightarrow> last (py_slice k (Suc (k + s)) rows) = rows ! (k + s)"
proof -
  assume a: "k + s < length rows"
  let ?w = "take (Suc s) (drop k rows)"
  from a have len: "length ?w = Suc s" by simp
  then have "?w \<noteq> []" by auto
  then have "last ?w = ?w ! s" using len by (simp add: last_conv_nth)
  also have "\<dots> = rows ! (k + s)" using a by simp
  finally show ?thesis by (simp add: py_slice_def)
qed

lemma get_position_present:
  assumes "\<forall>f \<in> set ordr. r (lstrip_dash f) \<noteq> None"
  shows "get_position_from_instance src r ordr
     = Inr (json_dumps src (map (\<lambda>f. str_of src (the (r (lstrip_dash f)))) ordr))"
proof -
  have "map_raising (\<lambda>order. case r (lstrip_dash order) of None \<Rightarrow> Inl AttributeError
                               | Some attr \<Rightarrow> Inr (str_of src attr)) ordr
      = Inr (map (\<lambda>f. str_of src (the (r (lstrip_dash f)))) ordr)"
    by (rule map_raising_Inr) (use assms in auto)
  then show ?thesis by (simp add: get_position_from_instance_def)
qed

lemma fetch_window_eq:
  assumes "0 \<le> k"
  shows "fetch_window src s ordr k rows =
     (if nat k + s < length rows
      then (case get_position_from_instance src (rows ! (nat k + s)) ordr of
              Inl e \<Rightarrow> Inl e
            | Inr fp \<Rightarrow> Inr (take s (drop (nat k) rows), True, Some fp))
      else Inr (take s (drop (nat k) rows), False, None))"
proof -
  define w where "w = py_slice (nat k) (nat k + s + 1) rows"
  have w': "w = py_slice (nat k) (Suc (nat k + s)) rows" by (simp add: w_def)
  from assms have nonneg: "\<not> k < 0" by simp
  have fw: "fetch_window src s ordr k rows =
     (if length w > length (take s w)
      then (case get_position_from_instance src (last w) ordr of
              Inl e \<Rightarrow> Inl e
            | Inr fp \<Rightarrow> Inr (take s w, True, Some fp))
      else Inr (take s w, False, None))"
    using nonneg by (simp only: fetch_window_def Let_def w_def if_False)
  have longer: "length w > length (take s w) \<longleftrightarrow> nat k + s < length rows"
    unfolding w' by (rule window_longer)
  have pg: "take s w = take s (drop (nat k) rows)"
    unfolding w' by (rule window_page)
  have longer2: "length w > length (take s (drop (nat k) rows)) \<longleftrightarrow> nat k + s < length rows"
    unfolding pg[symmetric] by (rule longer)
  show ?thesis
  proof (cases "nat k + s < length rows")
    case True
    then have "last w = rows ! (nat k + s)" unfolding w' by (rule window_last)
    with True show ?thesis by (simp only: fw pg longer2 if_True)
  next
    case False
    then show ?thesis by (simp only: fw pg longer2 if_False)
  qed
qed

text \<open>
  C4: for a cursor with offset \<open>k \<ge> 0\<close> and a page size \<open>s\<close>, once the filter for the
  position is built and when the rows of the scan have the fields of the ordering, the
  call succeeds; with \<open>window\<close> the rows \<open>[k, k + s + 1)\<close> of the ordered, filtered scan,
  the page is the first \<open>s\<close> rows of the window (reversed into presentation order for a
  reverse cursor) and has at most \<open>s\<close> rows; a following position exists exactly when the
  window has more than \<open>s\<close> rows, and it is then \<^verbatim>\<open>json.dumps\<close> of the \<^verbatim>\<open>str\<close> of the
  ordering's fields, in the ordering's order, of the extra row, which is row \<open>k + s\<close> of
  the scan. The following position is \<^verbatim>\<open>next_position\<close> for a forward cursor and
  \<^verbatim>\<open>previous_position\<close> for a reverse one.
\<close>

theorem paginate_cursor_window:
  assumes "cursor_parts cur = (k, rv, pos)" and "0 \<le> k"
    and "cursor_filter src u ordr rv pos = Inr filt"
    and "\<forall>r \<in> set (scan src (scan_ordering rv ordr) filt).
           \<forall>f \<in> set ordr. r (lstrip_dash f) \<noteq> None"
  shows "\<exists>st. paginate_cursor src s u ordr cur = Inr st
     \<and> page st = (if rv then rev (take s (py_slice (nat k) (nat k + s + 1)
                                            (scan src (scan_ordering rv ordr) filt)))
                  else take s (py_slice (nat k) (nat k + s + 1)
                                 (scan src (scan_ordering rv ordr) filt)))
     \<and> length (page st) \<le> s
     \<and> (if rv then has_previous st else has_next st)
         = (s < length (py_slice (nat k) (nat k + s + 1) (scan src (scan_ordering rv ordr) filt)))
     \<and> (if rv then previous_position st else next_position st)
         = (if s < length (py_slice (nat k) (nat k + s + 1) (scan src (scan_ordering rv ordr) filt))
            then Some (json_dumps src
                         (map (\<lambda>f. str_of src
                                 (the ((scan src (scan_ordering rv ordr) filt ! (nat k + s))
                                         (lstrip_dash f))))
                              ordr))
            else None)"
proof -
  let ?rows = "scan src (scan_ordering rv ordr) filt"
  let ?pg = "take s (drop (nat k) ?rows)"
  let ?fp = "json_dumps src
               (map (\<lambda>f. str_of src (the ((?rows ! (nat k + s)) (lstrip_dash f)))) ordr)"
  have len: "s < length (py_slice (nat k) (nat k + s + 1) ?rows) \<longleftrightarrow> nat k + s < length ?rows"
    by (auto simp: py_slice_def)
  have pg: "take s (py_slice (nat k) (nat k + s + 1) ?rows) = ?pg"
    by (simp add: py_slice_def min_def)
  have pc: "paginate_cursor src s u ordr cur =
      (case fetch_window src s ordr k ?rows of
         Inl e \<Rightarrow> Inl e
       | Inr (pg, hf, fp) \<Rightarrow> Inr (navigation rv k pos pg hf fp))"
    using assms(1,3) by (simp add: paginate_cursor_def)
  have short: "length ?pg \<le> s" by simp
  show ?thesis
  proof (cases "nat k + s < length ?rows")
    case True
    then have "?rows ! (nat k + s) \<in> set ?rows" by simp
    with assms(4) have "\<forall>f \<in> set ordr. (?rows ! (nat k + s)) (lstrip_dash f) \<noteq> None" by blast
    from get_position_present[OF this, of src] True
    have "fetch_window src s ordr k ?rows = Inr (?pg, True, Some ?fp)"
      by (simp only: fetch_window_eq[OF assms(2)] if_True sum.case)
    then have res: "paginate_cursor src s u ordr cur = Inr (navigation rv k pos ?pg True (Some ?fp))"
      by (simp only: pc sum.case prod.case)
    show ?thesis
      unfolding res pg len using True short
      by (cases rv) (simp_all add: navigation_def del: length_take take_all_iff)
  next
    case False
    then have "fetch_window src s ordr k ?rows = Inr (?pg, False, None)"
      by (simp only: fetch_window_eq[OF assms(2)] if_False)
    then have res: "paginate_cursor src s u ordr cur = Inr (navigation rv k pos ?pg False None)"
      by (simp only: pc sum.case prod.case)
    show ?thesis
      unfolding res pg len using False short
      by (cases rv) (simp_all add: navigation_def del: length_take take_all_iff)
  qed
qed

theorem paginate_cursor_window_witness:
  "cursor_parts (Some \<lparr>offset = 1, reverse = False, position = None\<rparr>) = (1, False, None)
   \<and> (0 :: int) \<le> 1
   \<and> cursor_filter (example_source example_table) False [''id''] False None = Inr None
   \<and> list_all (\<lambda>r. list_all (\<lambda>f. r (lstrip_dash f) \<noteq> None) [''id''])
        (scan (example_source example_table) (scan_ordering False [''id'']) None)
   \<and> map (\<lambda>r. r ''id'') (scan (example_source example_table) (scan_ordering False [''id'']) None)
       = [Some 1, Some 2, Some 3, Some 4, Some 5]
   \<and> (\<exists>st. paginate_cursor (example_source example_table) 2 False [''id'']
               (Some \<lparr>offset = 1, reverse = False, position = None\<rparr>) = Inr st
          \<and> map (\<lambda>r. r ''id'') (page st) = [Some 2, Some 3]
          \<and> has_next st
          \<and> next_position st = Some (example_dumps [''4'']))"
proof -
  let ?src = "example_source example_table"
  let ?rows = "scan ?src (scan_ordering False [''id'']) None"
  have h1: "cursor_parts (Some \<lparr>offset = 1, reverse = False, position = None\<rparr>) = (1, False, None)"
    by (simp add: cursor_parts_def)
  have h3: "cursor_filter ?src False [''id''] False None = Inr None"
    by (simp add: cursor_filter_def)
  have h4: "list_all (\<lambda>r. list_all (\<lambda>f. r (lstrip_dash f) \<noteq> None) [''id'']) ?rows"
    by code_simp
  have rows: "map (\<lambda>r. r ''id'') ?rows = [Some 1, Some 2, Some 3, Some 4, Some 5]"
    by code_simp
  have pg: "map (\<lambda>r. r ''id'') (take 2 (py_slice (nat 1) (nat 1 + 2 + 1) ?rows)) = [Some 2, Some 3]"
    by code_simp
  have more: "2 < length (py_slice (nat 1) (nat 1 + 2 + 1) ?rows)"
    by code_simp
  have fp: "json_dumps ?src (map (\<lambda>f. str_of ?src (the ((?rows ! (nat 1 + 2)) (lstrip_dash f)))) [''id''])
      = example_dumps [''4'']"
    by code_simp
  from h4 have h4': "\<forall>r \<in> set ?rows. \<forall>f \<in> set [''id'']. r (lstrip_dash f) \<noteq> None"
    by (simp only: list_all_iff)
  from paginate_cursor_window[OF h1 _ h3 h4', of 2] obtain st where
    st: "paginate_cursor ?src 2 False [''id''] (Some \<lparr>offset = 1, reverse = False, position = None\<rparr>) = Inr st"
    "page st = take 2 (py_slice (nat 1) (nat 1 + 2 + 1) ?rows)"
    "has_next st = (2 < length (py_slice (nat 1) (nat 1 + 2 + 1) ?rows))"
    "next_position st = (if 2 < length (py_slice (nat 1) (nat 1 + 2 + 1) ?rows)
         then Some (json_dumps ?src (map (\<lambda>f. str_of ?src (the ((?rows ! (nat 1 + 2)) (lstrip_dash f)))) [''id'']))
         else None)"
    by auto
  from st pg more fp have "paginate_cursor ?src 2 False [''id'']
               (Some \<lparr>offset = 1, reverse = False, position = None\<rparr>) = Inr st
          \<and> map (\<lambda>r. r ''id'') (page st) = [Some 2, Some 3]
          \<and> has_next st
          \<and> next_position st = Some (example_dumps [''4''])"
    by (simp only: if_True simp_thms)
  then show ?thesis using h1 h3 h4 rows by simp
qed

subsection \<open>A position with more values than the ordering has fields\<close>

lemma zip_take_right: "zip xs (take (length xs) ys) = zip xs ys"
proof (induction xs arbitrary: ys)
  case Nil
  then show ?case by simp
next
  case (Cons x xs)
  then show ?case by (cases ys) simp_all
qed

lemma zip_take_left: "zip (take (length ys) xs) ys = zip xs ys"
proof (induction ys arbitrary: xs)
  case Nil
  then show ?case by simp
next
  case (Cons y ys)
  then show ?case by (cases xs) simp_all
qed

lemma boundary_filter_take:
  "boundary_filter u rv ordr (take (length ordr) vs) = boundary_filter u rv ordr vs"
proof -
  have d: "disjunctive_filter rv ordr (take (length ordr) vs) = disjunctive_filter rv ordr vs"
    by (simp add: disjunctive_filter_def zip_take_right)
  have "zip (take (length ordr) vs) (map lstrip_dash ordr) = zip vs (map lstrip_dash ordr)"
    using zip_take_left[of "map lstrip_dash ordr" vs] by simp
  then have t: "tuple_filter rv ordr (take (length ordr) vs) = tuple_filter rv ordr vs"
    by (simp add: tuple_filter_def)
  show ?thesis by (simp add: boundary_filter_def d t)
qed

lemma boundary_filter_Inr:
  fixes vs :: "('v::linorder) list"
  assumes "ordr \<noteq> []" "distinct ordr" "length ordr \<le> length vs"
  shows "\<exists>q. boundary_filter u rv ordr vs = Inr q"
  using disjunctive_filter_holds[OF assms, of rv]
  by (auto simp: boundary_filter_def)

lemma fetch_window_not_found: "fetch_window src s ordr k rows \<noteq> Inl NotFound"
proof -
  have m: "map_raising g xs \<noteq> Inl NotFound" if "\<And>x. g x \<noteq> Inl NotFound" for g and xs
    using that by (induction xs) (auto split: sum.splits)
  have "get_position_from_instance src r ordr \<noteq> Inl NotFound" for r
  proof -
    have "(case r (lstrip_dash x) of None \<Rightarrow> Inl AttributeError
           | Some attr \<Rightarrow> Inr (str_of src attr)) \<noteq> Inl NotFound" for x
      by (simp split: option.splits)
    from m[of "\<lambda>order. case r (lstrip_dash order) of None \<Rightarrow> Inl AttributeError
                          | Some attr \<Rightarrow> Inr (str_of src attr)" ordr, OF this]
    show ?thesis
      by (auto simp: get_position_from_instance_def split: sum.splits)
  qed
  then show ?thesis
    by (auto simp: fetch_window_def Let_def split: sum.splits)
qed

text \<open>
  C5 as stated fails: nothing compares the number of values of the position with the
  length of the ordering. With the ordering \<^verbatim>\<open>("id",)\<close> the position \<^verbatim>\<open>[2, 9]\<close>, which
  has two values, is accepted and the page after key 2 is returned; with the ordering
  \<^verbatim>\<open>("field", "id")\<close> the position \<^verbatim>\<open>[10]\<close>, which has one value, ends in a
  \<^verbatim>\<open>KeyError\<close> of the second loop, not in the not-found error. The token is the base64
  of \<^verbatim>\<open>p=%5B2%2C+9%5D\<close>.
\<close>

theorem position_count_counterexample:
  "get_ordering None (StrDecl ''id'') ''id'' = Inr [''id'']
   \<and> decode_cursor (Some 1000) (Some ''cD0lNUIyJTJDKzklNUQ='')
       = Inr (Some \<lparr>offset = 0, reverse = False, position = Some ''[2, 9]''\<rparr>)
   \<and> json_loads (example_source example_table) ''[2, 9]'' = Inr [2, 9]
   \<and> (case paginate_queryset (example_source example_table) 2 False (Some 1000)
              None (StrDecl ''id'') ''id'' (Some ''cD0lNUIyJTJDKzklNUQ='') of
         Inr (Some st) \<Rightarrow> map (\<lambda>r. r ''id'') (page st) = [Some 3, Some 4]
       | _ \<Rightarrow> False)
   \<and> json_loads (example_source example_table) ''[10]'' = Inr [10]
   \<and> (case paginate_cursor (example_source example_table) 2 False [''field'', ''id'']
              (Some \<lparr>offset = 0, reverse = False, position = Some ''[10]''\<rparr>) of
         Inl e \<Rightarrow> e = KeyError
       | Inr st \<Rightarrow> False)"
  by code_simp

text \<open>
  C5 (amended): for a decoded cursor whose position has at least as many values as the
  (non-empty, duplicate-free) ordering has fields, no validation of the count takes place
  and the request is not rejected with the not-found error: the filter for the position
  is built, and it is the filter of the first \<open>n\<close> values, the surplus being ignored.
\<close>

theorem position_count_not_validated:
  assumes "position c = Some p" and "json_loads src p = Inr vs"
    and "length ordr \<le> length vs" and "ordr \<noteq> []" and "distinct ordr"
  shows "\<exists>q. cursor_filter src u ordr (reverse c) (position c) = Inr (Some q)
          \<and> boundary_filter u (reverse c) ordr (take (length ordr) vs) = Inr q
          \<and> paginate_cursor src s u ordr (Some c) \<noteq> Inl NotFound"
proof -
  from boundary_filter_Inr[OF assms(4,5,3)] obtain q where
    q: "boundary_filter u (reverse c) ordr vs = Inr q" by blast
  then have cf: "cursor_filter src u ordr (reverse c) (position c) = Inr (Some q)"
    using assms(1,2) by (simp add: cursor_filter_def)
  have "paginate_cursor src s u ordr (Some c) \<noteq> Inl NotFound"
    using cf fetch_window_not_found[of src s ordr "offset c"]
    by (auto simp: paginate_cursor_def cursor_parts_def split: sum.splits)
  with q cf show ?thesis by (simp add: boundary_filter_take)
qed

theorem position_count_not_validated_witness:
  "position \<lparr>offset = 0, reverse = False, position = Some ''[2, 9]''\<rparr> = Some ''[2, 9]''
   \<and> json_loads (example_source example_table) ''[2, 9]'' = Inr [2, 9]
   \<and> length [''id''] \<le> length [2, 9 :: int] \<and> [''id''] \<noteq> [] \<and> distinct [''id'']
   \<and> boundary_filter False False [''id''] (take (length [''id'']) [2, 9 :: int])
       = Inr (Q_or (Q_gt ''id'' 2) (Q_gt ''id'' 2))
   \<and> cursor_filter (example_source example_table) False [''id''] False (Some ''[2, 9]'')
       = Inr (Some (Q_or (Q_gt ''id'' 2) (Q_gt ''id'' 2)))
   \<and> paginate_cursor (example_source example_table) 2 False [''id'']
        (Some \<lparr>offset = 0, reverse = False, position = Some ''[2, 9]''\<rparr>) \<noteq> Inl NotFound"
proof -
  have a: "json_loads (example_source example_table) ''[2, 9]'' = Inr [2, 9]"
    "boundary_filter False False [''id''] (take (length [''id'']) [2, 9 :: int])
       = Inr (Q_or (Q_gt ''id'' 2) (Q_gt ''id'' 2))"
    by code_simp+
  show ?thesis
    using position_count_not_validated[of "\<lparr>offset = 0, reverse = False, position = Some ''[2, 9]''\<rparr>"
        "''[2, 9]''" "example_source example_table" "[2, 9]" "[''id'']" False 2] a
    by auto
qed


end
